theory Spec2Isabelle
  imports Main "HOL-Library.Word"
begin

section \<open>Data model\<close>

type_synonym byte = "8 word"

text \<open>
  A Go \<^verbatim>\<open>[]byte\<close>: \<open>None\<close> is the nil slice, \<open>Some xs\<close> a non-nil slice
  (possibly empty). \<^verbatim>\<open>len\<close> of the nil slice is 0 and \<^verbatim>\<open>bytes.Equal\<close> does not
  tell nil from empty, but \<^verbatim>\<open>best != nil\<close> does.
\<close>

type_synonym bytes = "byte list option"

definition len :: "bytes \<Rightarrow> nat" where
  "len b = (case b of None \<Rightarrow> 0 | Some xs \<Rightarrow> length xs)"

definition bytes_Equal :: "bytes \<Rightarrow> bytes \<Rightarrow> bool" where
  "bytes_Equal a b =
     ((case a of None \<Rightarrow> [] | Some xs \<Rightarrow> xs) = (case b of None \<Rightarrow> [] | Some ys \<Rightarrow> ys))"

text \<open>The conversion \<^verbatim>\<open>[]byte(s)\<close> of a Go string.\<close>

definition bytes_of_string :: "string \<Rightarrow> bytes" where
  "bytes_of_string s = Some (map of_char s)"

text \<open>\<^verbatim>\<open>ed25519.PublicKeySize\<close>\<close>

definition PublicKeySize :: nat where
  "PublicKeySize = 32"

text \<open>
  Go errors: the sentinel \<^verbatim>\<open>db.ErrNotFound\<close>, an error made of a message only
  (\<^verbatim>\<open>fmt.Errorf("...")\<close>, or any error of a collaborator), and an error wrapping its
  cause (\<^verbatim>\<open>fmt.Errorf("...: %w", err)\<close>). \<^verbatim>\<open>errors.Is\<close> walks the chain of causes.
\<close>

datatype error = ErrNotFound | New string | Wrap string error

fun errors_Is :: "error \<Rightarrow> error \<Rightarrow> bool" where
  "errors_Is (Wrap m e) target = (Wrap m e = target \<or> errors_Is e target)"
| "errors_Is e target = (e = target)"

text \<open>
  The fields of \<^verbatim>\<open>db.Channel\<close> that this program reads. The status has the two values
  the program names and further ones it never looks at.
\<close>

datatype ChannelStatus = ChannelStateInactive | ChannelStateActive | ChannelStateOther nat

record OnchainState =
  Key :: bytes
  Deposited :: int

record Side =
  IsReady :: bool

record Channel =
  Address :: string
  Status :: ChannelStatus
  TheirOnchain :: OnchainState
  Our :: Side
  Their :: Side

section \<open>preparePaymentChannel\<close>

text \<open>
  What the function does to the outside, in the order it does it: calls of the payment
  service, reads of the console, sleeps (in milliseconds) and log lines.
\<close>

datatype event =
    CallListChannels
  | LogWarnNoActiveChannel
  | CallScanln
  | CallOpenChannelWithNode bytes nat
  | LogInfoDeployed string
  | CallGetChannel string
  | Sleep nat
  | LogInfoExchangeCompleted string

text \<open>
  The answers of the collaborators: the active channels listed, the line read from the
  console and its base64 decoding, the outcome of a deployment for a key, and the answer
  of the \<open>n\<close>-th poll of \<^verbatim>\<open>GetChannel\<close> for an address (the store changes while
  the function waits).
\<close>

record world =
  ListChannels :: "error + Channel list"
  Scanln :: "error + string"
  DecodeString :: "string \<Rightarrow> error + byte list"
  OpenChannelWithNode :: "bytes \<Rightarrow> error + string"
  GetChannel :: "nat \<Rightarrow> string \<Rightarrow> error + Channel"

text \<open>
  The loop over the listed channels (lines 549 to 565). It either returns from the
  function at once, or ends with \<^verbatim>\<open>best\<close> and \<^verbatim>\<open>bestAmount\<close>.
\<close>

datatype scan = Return bytes | Best bytes int

fun scanChannels :: "bytes \<Rightarrow> Channel list \<Rightarrow> bytes \<Rightarrow> int \<Rightarrow> scan" where
  "scanChannels ch [] best bestAmount = Best best bestAmount"
| "scanChannels ch (channel # rest) best bestAmount =
     (if len ch > 0 then
        (if bytes_Equal (Key (TheirOnchain channel)) ch
         then Return (Key (TheirOnchain channel))
         else scanChannels ch rest best bestAmount)
      else if Deposited (TheirOnchain channel) \<ge> bestAmount
        then scanChannels ch rest (Key (TheirOnchain channel)) (Deposited (TheirOnchain channel))
        else scanChannels ch rest best bestAmount)"

text \<open>
  The function up to the start of the wait loop (lines 544 to 596): it has either
  returned, or deployed a channel for the key \<open>ch\<close> at an address and goes on to wait.
\<close>

datatype phase = Finished "error + bytes" | Waiting bytes string

text \<open>Lines 574 to 584: the key to deploy with is read from the console when none is given.\<close>

definition promptKey :: "world \<Rightarrow> bytes \<Rightarrow> (error + bytes) \<times> event list" where
  "promptKey w ch =
     (if len ch = 0 then
        (case Scanln w of
           Inl err \<Rightarrow> (Inl (Wrap ''failed to read input'' err), [LogWarnNoActiveChannel, CallScanln])
         | Inr inp \<Rightarrow>
             (case DecodeString w inp of
                Inl err \<Rightarrow> (Inl (Wrap ''invalid id formet'' err), [LogWarnNoActiveChannel, CallScanln])
              | Inr b \<Rightarrow> (Inr (Some b), [LogWarnNoActiveChannel, CallScanln])))
      else (Inr ch, []))"

text \<open>Lines 586 to 596: the length check and the deployment, bounded by 150 seconds.\<close>

definition deployChannel :: "world \<Rightarrow> bytes \<Rightarrow> phase \<times> event list" where
  "deployChannel w ch =
     (if len ch \<noteq> PublicKeySize then (Finished (Inl (New ''invalid channel id length'')), [])
      else
        (case OpenChannelWithNode w ch of
           Inl err \<Rightarrow>
             (Finished (Inl (Wrap ''failed to deploy channel with node'' err)),
              [CallOpenChannelWithNode ch 150])
         | Inr addr \<Rightarrow> (Waiting ch addr, [CallOpenChannelWithNode ch 150, LogInfoDeployed addr])))"

definition selectOrDeploy :: "world \<Rightarrow> bytes \<Rightarrow> phase \<times> event list" where
  "selectOrDeploy w ch =
     (case ListChannels w of
        Inl err \<Rightarrow> (Finished (Inl (Wrap ''failed to list channels'' err)), [CallListChannels])
      | Inr list \<Rightarrow>
          (case scanChannels ch list None 0 of
             Return k \<Rightarrow> (Finished (Inr k), [CallListChannels])
           | Best best bestAmount \<Rightarrow>
               if best \<noteq> None then (Finished (Inr best), [CallListChannels])
               else
                 (case promptKey w ch of
                    (Inl err, tr) \<Rightarrow> (Finished (Inl err), CallListChannels # tr)
                  | (Inr ch', tr) \<Rightarrow>
                      (case deployChannel w ch' of
                         (p, tr') \<Rightarrow> (p, CallListChannels # tr @ tr')))))"

text \<open>
  The wait loop (lines 598 to 613). It has no bound, so it is a partial function: not
  returning is the value \<open>None\<close>. \<open>n\<close> counts the polls made so far, \<open>tr\<close> is the
  trace so far. The result is the error of the loop, if any, and the trace.
\<close>

partial_function (option) waitStatesExchange ::
  "world \<Rightarrow> string \<Rightarrow> nat \<Rightarrow> event list \<Rightarrow> (error option \<times> event list) option" where
  "waitStatesExchange w addr n tr =
     (case GetChannel w n addr of
        Inl err \<Rightarrow>
          if errors_Is err ErrNotFound
          then waitStatesExchange w addr (Suc n) (tr @ [CallGetChannel addr, Sleep 500])
          else Some (Some (Wrap ''failed to get channel'' err), tr @ [CallGetChannel addr])
      | Inr channel \<Rightarrow>
          if \<not> IsReady (Our channel) \<or> \<not> IsReady (Their channel)
          then waitStatesExchange w addr (Suc n) (tr @ [CallGetChannel addr, Sleep 500])
          else Some (None, tr @ [CallGetChannel addr]))"

definition preparePaymentChannel ::
  "world \<Rightarrow> bytes \<Rightarrow> ((error + bytes) \<times> event list) option" where
  "preparePaymentChannel w ch =
     (case selectOrDeploy w ch of
        (Finished r, tr) \<Rightarrow> Some (r, tr)
      | (Waiting ch' addr, tr) \<Rightarrow>
          (case waitStatesExchange w addr 0 tr of
             None \<Rightarrow> None
           | Some (Some err, tr') \<Rightarrow> Some (Inl err, tr')
           | Some (None, tr') \<Rightarrow> Some (Inr ch', tr' @ [LogInfoExchangeCompleted addr])))"

text \<open>
  The selection rule in the words of the specification: among the listed channels, the
  one with the maximum deposited amount, the last one in iteration order on a tie.
\<close>

definition spec_best_channel :: "Channel list \<Rightarrow> Channel" where
  "spec_best_channel list =
     last (filter (\<lambda>c. \<forall>c'\<in>set list. Deposited (TheirOnchain c') \<le> Deposited (TheirOnchain c)) list)"

text \<open>
  The data model of the specification (section 3): a counterparty key is a public key of
  the fixed size, a deposited amount is not negative.
\<close>

definition channel_ok :: "Channel \<Rightarrow> bool" where
  "channel_ok c = (len (Key (TheirOnchain c)) = PublicKeySize \<and> 0 \<le> Deposited (TheirOnchain c))"

text \<open>The trace of \<open>k\<close> polls that each found the channel not ready yet.\<close>

definition polls :: "nat \<Rightarrow> string \<Rightarrow> event list" where
  "polls k addr = concat (replicate k [CallGetChannel addr, Sleep 500])"

text \<open>
  An answer of \<^verbatim>\<open>GetChannel\<close> after which the wait goes on: the channel is not found,
  or one of the two readiness flags is not set.
\<close>

definition pending :: "error + Channel \<Rightarrow> bool" where
  "pending r =
     (case r of
        Inl err \<Rightarrow> errors_Is err ErrNotFound
      | Inr channel \<Rightarrow> \<not> (IsReady (Our channel) \<and> IsReady (Their channel)))"

section \<open>preparePayments\<close>

text \<open>\<^verbatim>\<open>log.Fatal\<close> writes the message with the error and ends the process.\<close>

datatype fatal = Fatal string error

datatype boot_event =
    CallAddConnectionsFromConfig
  | CallStartClient
  | CallNewLevelDB
  | CallSetMigrationVersion nat
  | CallRunMigrations
  | RunMigration nat
  | CallGetBlockOffset
  | CallNewScanner "32 word"
  | CallStartSmall
  | CallSetOnChannelUpdated
  | CallGetChannels
  | CallOnChannelUpdate Channel bool
  | CallInitWallet
  | CallNewService
  | CallSetService

text \<open>
  The answers of the collaborators at startup. \<open>NewLevelDB\<close> says whether the store is
  newly created; \<open>MigrationVersion\<close> is the version the store holds; \<open>Migrations\<close> is
  \<^verbatim>\<open>db.Migrations\<close>, each entry the outcome of running that migration;
  \<open>GetBlockOffset\<close> answers with the persisted sequence number.
\<close>

record boot =
  AddConnectionsFromConfig :: "error option"
  StartClient :: "error option"
  NewLevelDB :: "error + bool"
  MigrationVersion :: nat
  Migrations :: "error option list"
  SetMigrationVersion :: "nat \<Rightarrow> error option"
  GetBlockOffset :: "error + 32 word"
  StartSmall :: "error option"
  GetChannels :: "error + Channel list"
  InitWallet :: "error option"
  NewService :: "error option"

text \<open>
  Modelled from the spec: \<^verbatim>\<open>db.RunMigrations\<close> is code of the payment network library,
  which is not among the sources. The specification says: run all migrations whose
  version exceeds the stored MigrationVersion, in ascending order; on an existing store
  with version \<open>v < total\<close>, migrations \<open>v+1..total\<close> run in order and the version
  advances to \<open>total\<close>; a failing migration ends the run with its error. The
  migration of version \<open>i\<close> is the \<open>i\<close>-th entry of \<^verbatim>\<open>db.Migrations\<close>. The
  specification does not say what version the store holds after a failed run; the
  model leaves it as it was.
\<close>

fun runMigrationsFrom :: "nat \<Rightarrow> error option list \<Rightarrow> error option \<times> boot_event list" where
  "runMigrationsFrom v [] = (None, [])"
| "runMigrationsFrom v (m # ms) =
     (case m of
        Some err \<Rightarrow> (Some err, [RunMigration (Suc v)])
      | None \<Rightarrow>
          (case runMigrationsFrom (Suc v) ms of (r, tr) \<Rightarrow> (r, RunMigration (Suc v) # tr)))"

text \<open>
  Modelled from the spec: \<^verbatim>\<open>db.RunMigrations\<close> as a whole, on the store of \<open>b\<close>:
  the pending migrations are those above the stored version; when all of them have
  run, the version advances to the total.
\<close>

definition RunMigrations :: "boot \<Rightarrow> error option \<times> boot_event list \<times> nat" where
  "RunMigrations b =
     (case runMigrationsFrom (MigrationVersion b) (drop (MigrationVersion b) (Migrations b)) of
        (Some err, tr) \<Rightarrow> (Some err, tr, MigrationVersion b)
      | (None, tr) \<Rightarrow>
          (None, tr,
           if MigrationVersion b < length (Migrations b) then length (Migrations b)
           else MigrationVersion b))"

text \<open>
  Lines 475 to 485: the fatal error if any, the trace, and the version the store holds
  afterwards.
\<close>

definition migrate :: "boot \<Rightarrow> bool \<Rightarrow> fatal option \<times> boot_event list \<times> nat" where
  "migrate b freshDb =
     (if freshDb then
        (case SetMigrationVersion b (length (Migrations b)) of
           Some err \<Rightarrow>
             (Some (Fatal ''failed to set initial migration version'' err),
              [CallSetMigrationVersion (length (Migrations b))], MigrationVersion b)
         | None \<Rightarrow>
             (None, [CallSetMigrationVersion (length (Migrations b))], length (Migrations b)))
      else
        (case RunMigrations b of
           (Some err, tr, v) \<Rightarrow> (Some (Fatal ''failed to run migrations'' err), CallRunMigrations # tr, v)
         | (None, tr, v) \<Rightarrow> (None, CallRunMigrations # tr, v)))"

text \<open>Lines 436 to 485: the connections, the store and its migrations.\<close>

definition openStore :: "boot \<Rightarrow> fatal option \<times> boot_event list \<times> nat" where
  "openStore b =
     (case AddConnectionsFromConfig b of
        Some err \<Rightarrow> (Some (Fatal ''ton connect err'' err), [CallAddConnectionsFromConfig], MigrationVersion b)
      | None \<Rightarrow>
          (case StartClient b of
             Some err \<Rightarrow>
               (Some (Fatal ''failed to init adnl payments gateway'' err),
                [CallAddConnectionsFromConfig, CallStartClient], MigrationVersion b)
           | None \<Rightarrow>
               (case NewLevelDB b of
                  Inl err \<Rightarrow>
                    (Some (Fatal ''failed to init leveldb'' err),
                     [CallAddConnectionsFromConfig, CallStartClient, CallNewLevelDB], MigrationVersion b)
                | Inr freshDb \<Rightarrow>
                    (case migrate b freshDb of
                       (f, tr, v) \<Rightarrow>
                         (f, [CallAddConnectionsFromConfig, CallStartClient, CallNewLevelDB] @ tr, v)))))"

text \<open>Lines 490 to 498: the sequence number the scanner starts from.\<close>

definition loadSeqno :: "boot \<Rightarrow> fatal + 32 word" where
  "loadSeqno b =
     (case GetBlockOffset b of
        Inl err \<Rightarrow>
          if \<not> errors_Is err ErrNotFound then Inl (Fatal ''failed to load block offset'' err)
          else Inr 0
      | Inr bo_Seqno \<Rightarrow> Inr bo_Seqno)"

text \<open>Lines 519 to 523: the replay of the channels of the store.\<close>

fun replayChannels :: "Channel list \<Rightarrow> boot_event list" where
  "replayChannels [] = []"
| "replayChannels (channel # rest) =
     (if Status channel \<noteq> ChannelStateInactive
      then CallOnChannelUpdate channel True # replayChannels rest
      else replayChannels rest)"

text \<open>Lines 505 to 523: the scanner, its registration and the replay.\<close>

definition startScanner :: "boot \<Rightarrow> 32 word \<Rightarrow> fatal option \<times> boot_event list" where
  "startScanner b seqno =
     (case StartSmall b of
        Some err \<Rightarrow> (Some (Fatal ''failed to start scanner'' err), [CallNewScanner seqno, CallStartSmall])
      | None \<Rightarrow>
          (case GetChannels b of
             Inl err \<Rightarrow>
               (Some (Fatal ''failed to load channels'' err),
                [CallNewScanner seqno, CallStartSmall, CallSetOnChannelUpdated, CallGetChannels])
           | Inr chList \<Rightarrow>
               (None,
                [CallNewScanner seqno, CallStartSmall, CallSetOnChannelUpdated, CallGetChannels]
                  @ replayChannels chList)))"

text \<open>Lines 525 to 540: the wallet and the service.\<close>

definition initService :: "boot \<Rightarrow> fatal option \<times> boot_event list" where
  "initService b =
     (case InitWallet b of
        Some err \<Rightarrow> (Some (Fatal ''failed to init wallet'' err), [CallInitWallet])
      | None \<Rightarrow>
          (case NewService b of
             Some err \<Rightarrow> (Some (Fatal ''failed to init payments service'' err), [CallInitWallet, CallNewService])
           | None \<Rightarrow> (None, [CallInitWallet, CallNewService, CallSetService])))"

text \<open>
  The whole function: the fatal error that ended the process, if any, the trace, and
  the migration version the store holds afterwards.
\<close>

definition preparePayments :: "boot \<Rightarrow> fatal option \<times> boot_event list \<times> nat" where
  "preparePayments b =
     (case openStore b of
        (Some f, tr, v) \<Rightarrow> (Some f, tr, v)
      | (None, tr, v) \<Rightarrow>
          (case loadSeqno b of
             Inl f \<Rightarrow> (Some f, tr @ [CallGetBlockOffset], v)
           | Inr seqno \<Rightarrow>
               (case startScanner b seqno of
                  (Some f, tr') \<Rightarrow> (Some f, tr @ [CallGetBlockOffset] @ tr', v)
                | (None, tr') \<Rightarrow>
                    (case initService b of
                       (f, tr'') \<Rightarrow> (f, tr @ [CallGetBlockOffset] @ tr' @ tr'', v)))))"

fun is_update :: "boot_event \<Rightarrow> bool" where
  "is_update (CallOnChannelUpdate c r) = True"
| "is_update e = False"

fun is_migration :: "boot_event \<Rightarrow> bool" where
  "is_migration (RunMigration i) = True"
| "is_migration e = False"

fun is_scanner_start :: "boot_event \<Rightarrow> bool" where
  "is_scanner_start (CallNewScanner s) = True"
| "is_scanner_start e = False"

section \<open>The console commands balance and capacity\<close>

datatype log =
    InfoInputACommand
  | ErrorInputFailure error
  | ErrorPaymentsNotEnabled
  | ErrorFailedToListChannels error
  | ErrorFailedToCalcBalance error
  | InfoSummarizedBalance int
  | InfoCapacityLeft int
  | OtherCommand string

text \<open>
  One turn of the console loop: the line read, and what the payment service answers
  during that turn.
\<close>

record turn =
  Scanned :: "error + string"
  Listed :: "error + Channel list"
  CalcBalance :: "Channel \<Rightarrow> bool \<Rightarrow> error + int"

text \<open>Lines 321 to 329: the sum, and the log lines of the channels that failed.\<close>

fun sumBalances :: "(Channel \<Rightarrow> bool \<Rightarrow> error + int) \<Rightarrow> bool \<Rightarrow> Channel list \<Rightarrow> int \<Rightarrow> int \<times> log list" where
  "sumBalances calc cap [] amount = (amount, [])"
| "sumBalances calc cap (channel # rest) amount =
     (case calc channel cap of
        Inl err \<Rightarrow>
          (case sumBalances calc cap rest amount of
             (a, lg) \<Rightarrow> (a, ErrorFailedToCalcBalance err # lg))
      | Inr v \<Rightarrow> sumBalances calc cap rest (amount + v))"

text \<open>Lines 309 to 336. \<open>enabled\<close> says that \<^verbatim>\<open>pmt.Service\<close> is not nil.\<close>

definition cmdBalance :: "bool \<Rightarrow> turn \<Rightarrow> string \<Rightarrow> log list" where
  "cmdBalance enabled t val =
     (if \<not> enabled then [ErrorPaymentsNotEnabled]
      else
        (case Listed t of
           Inl err \<Rightarrow> [ErrorFailedToListChannels err]
         | Inr list \<Rightarrow>
             (case sumBalances (CalcBalance t) (val = ''capacity'') list 0 of
                (amount, lg) \<Rightarrow>
                  lg @ [if val = ''balance'' then InfoSummarizedBalance amount
                        else InfoCapacityLeft amount])))"

text \<open>
  The console loop (lines 257 to 404) over the turns observed so far; the loop itself
  never ends. The other commands are kept as one log entry each: what they print
  depends on the gateway and the wallet only.
\<close>

fun console :: "bool \<Rightarrow> turn list \<Rightarrow> log list" where
  "console enabled [] = []"
| "console enabled (t # rest) =
     InfoInputACommand #
     (case Scanned t of
        Inl err \<Rightarrow> ErrorInputFailure err # console enabled rest
      | Inr val \<Rightarrow>
          if val = ''balance'' \<or> val = ''capacity''
          then cmdBalance enabled t val @ console enabled rest
          else OtherCommand val # console enabled rest)"

section \<open>The console command speed\<close>










section \<open>Examples\<close>

definition key :: "byte \<Rightarrow> bytes" where
  "key x = Some (replicate 32 x)"

definition chan :: "byte \<Rightarrow> string \<Rightarrow> int \<Rightarrow> bool \<Rightarrow> Channel" where
  "chan x a d r =
     \<lparr>Address = a, Status = ChannelStateActive,
      TheirOnchain = \<lparr>Key = key x, Deposited = d\<rparr>,
      Our = \<lparr>IsReady = r\<rparr>, Their = \<lparr>IsReady = r\<rparr>\<rparr>"

text \<open>
  A world with the given active channels, in which a deployment for any key succeeds at
  the address \<open>''EQnew''\<close> and the deployed channel is ready at the third poll.
\<close>

definition world_of :: "Channel list \<Rightarrow> world" where
  "world_of list =
     \<lparr>ListChannels = Inr list,
      Scanln = Inl (New ''unexpected newline''),
      DecodeString = (\<lambda>s. Inl (New ''illegal base64 data'')),
      OpenChannelWithNode = (\<lambda>k. Inr ''EQnew''),
      GetChannel = (\<lambda>n a. if n < 2 then Inl (Wrap ''get channel'' ErrNotFound)
                             else Inr (chan 9 a 0 True))\<rparr>"

text \<open>
  The same world, but the first poll finds the deployed channel not ready and the second
  one fails; and the world in which the deployed channel never shows up.
\<close>

definition world_failing :: world where
  "world_failing =
     (world_of [])\<lparr>GetChannel :=
        (\<lambda>n a. if n < 1 then Inr (chan 9 a 0 False) else Inl (New ''leveldb: closed''))\<rparr>"

definition world_never :: world where
  "world_never = (world_of [])\<lparr>GetChannel := (\<lambda>n a. Inl ErrNotFound)\<rparr>"

text \<open>
  A start on an existing store at migration version 1 of 3, with the persisted sequence
  number 42 and three channels, the second of them inactive.
\<close>

definition boot_resumed :: boot where
  "boot_resumed =
     \<lparr>AddConnectionsFromConfig = None, StartClient = None, NewLevelDB = Inr False,
      MigrationVersion = 1, Migrations = [None, None, None],
      SetMigrationVersion = (\<lambda>n. None),
      GetBlockOffset = Inr 42, StartSmall = None,
      GetChannels = Inr [chan 1 ''EQa'' 10 True,
                         (chan 2 ''EQb'' 50 True)\<lparr>Status := ChannelStateInactive\<rparr>,
                         (chan 3 ''EQc'' 0 False)\<lparr>Status := ChannelStateOther 2\<rparr>],
      InitWallet = None, NewService = None\<rparr>"

text \<open>
  A turn of the console with three active channels, in which the balance of the second
  one cannot be computed.
\<close>

definition turn_of :: "string \<Rightarrow> turn" where
  "turn_of val =
     \<lparr>Scanned = Inr val,
      Listed = Inr [chan 1 ''EQa'' 10 True, chan 2 ''EQb'' 50 True, chan 3 ''EQc'' 20 True],
      CalcBalance =
        (\<lambda>c cap. if Key (TheirOnchain c) = key 2 then Inl (New ''no signed state'')
                  else Inr (if cap then 2 * Deposited (TheirOnchain c)
                            else Deposited (TheirOnchain c)))\<rparr>"




section \<open>Properties of the channel selection\<close>

lemma len_None: "len None = 0"
  by (simp add: len_def)

lemma scanChannels_snoc:
  "scanChannels ch (xs @ [x]) best bestAmount =
     (case scanChannels ch xs best bestAmount of
        Return k \<Rightarrow> Return k
      | Best b a \<Rightarrow> scanChannels ch [x] b a)"
  by (induction xs arbitrary: best bestAmount) simp_all

lemma scanChannels_explicit:
  "0 < len ch \<Longrightarrow>
   scanChannels ch list best bestAmount =
     (case find (\<lambda>c. bytes_Equal (Key (TheirOnchain c)) ch) list of
        Some c \<Rightarrow> Return (Key (TheirOnchain c))
      | None \<Rightarrow> Best best bestAmount)"
  by (induction list) simp_all

lemma scanChannels_best:
  assumes "len ch = 0" and "xs \<noteq> []"
    and "\<forall>c\<in>set xs. 0 \<le> Deposited (TheirOnchain c)"
  shows "filter (\<lambda>c. \<forall>c'\<in>set xs. Deposited (TheirOnchain c') \<le> Deposited (TheirOnchain c)) xs \<noteq> [] \<and>
         scanChannels ch xs None 0 =
           Best (Key (TheirOnchain (spec_best_channel xs))) (Deposited (TheirOnchain (spec_best_channel xs)))"
  using assms(2,3)
proof (induction xs rule: rev_induct)
  case Nil
  then show ?case by simp
next
  case (snoc x xs)
  let ?D = "\<lambda>c. Deposited (TheirOnchain c)"
  show ?case
  proof (cases "xs = []")
    case True
    with snoc.prems assms(1) show ?thesis
      by (simp add: spec_best_channel_def)
  next
    case False
    from snoc.prems have nonneg: "\<forall>c\<in>set xs. 0 \<le> ?D c" by simp
    let ?b = "spec_best_channel xs"
    from snoc.IH [OF False nonneg]
    have ne: "filter (\<lambda>c. \<forall>c'\<in>set xs. ?D c' \<le> ?D c) xs \<noteq> []"
      and sc: "scanChannels ch xs None 0 = Best (Key (TheirOnchain ?b)) (?D ?b)"
      by simp_all
    from ne have "?b \<in> set (filter (\<lambda>c. \<forall>c'\<in>set xs. ?D c' \<le> ?D c) xs)"
      unfolding spec_best_channel_def by (rule last_in_set)
    then have bmax: "\<forall>c'\<in>set xs. ?D c' \<le> ?D ?b" and bin: "?b \<in> set xs"
      by simp_all
    show ?thesis
    proof (cases "?D ?b \<le> ?D x")
      case True
      with bmax have xmax: "\<forall>c'\<in>set (xs @ [x]). ?D c' \<le> ?D x"
        by auto
      then have "spec_best_channel (xs @ [x]) = x"
        by (simp add: spec_best_channel_def)
      with True sc assms(1) xmax show ?thesis
        by (simp add: scanChannels_snoc)
    next
      case lt: False
      have eq: "filter (\<lambda>c. \<forall>c'\<in>set (xs @ [x]). ?D c' \<le> ?D c) xs =
                filter (\<lambda>c. \<forall>c'\<in>set xs. ?D c' \<le> ?D c) xs"
      proof (rule filter_cong [OF refl])
        fix c assume "c \<in> set xs"
        show "(\<forall>c'\<in>set (xs @ [x]). ?D c' \<le> ?D c) = (\<forall>c'\<in>set xs. ?D c' \<le> ?D c)"
        proof
          assume "\<forall>c'\<in>set (xs @ [x]). ?D c' \<le> ?D c"
          then show "\<forall>c'\<in>set xs. ?D c' \<le> ?D c" by simp
        next
          assume h: "\<forall>c'\<in>set xs. ?D c' \<le> ?D c"
          with bin have "?D ?b \<le> ?D c" by blast
          with lt have "?D x \<le> ?D c" by simp
          with h show "\<forall>c'\<in>set (xs @ [x]). ?D c' \<le> ?D c" by simp
        qed
      qed
      from lt bin have notx: "\<not> (\<forall>c'\<in>set (xs @ [x]). ?D c' \<le> ?D x)"
        by (metis Un_iff set_append)
      from notx eq have feq: "filter (\<lambda>c. \<forall>c'\<in>set (xs @ [x]). ?D c' \<le> ?D c) (xs @ [x]) =
          filter (\<lambda>c. \<forall>c'\<in>set xs. ?D c' \<le> ?D c) xs"
        by simp
      then have "spec_best_channel (xs @ [x]) = ?b"
        by (simp only: spec_best_channel_def)
      with lt sc assms(1) feq ne show ?thesis
        by (simp add: scanChannels_snoc)
    qed
  qed
qed


subsection \<open>The wait loop\<close>

lemma wait_retry:
  "pending (GetChannel w n addr) \<Longrightarrow>
   waitStatesExchange w addr n tr =
     waitStatesExchange w addr (Suc n) (tr @ [CallGetChannel addr, Sleep 500])"
  by (subst waitStatesExchange.simps) (auto simp: pending_def split: sum.splits)

lemma wait_retries:
  "\<forall>i<k. pending (GetChannel w (n + i) addr) \<Longrightarrow>
   waitStatesExchange w addr n tr = waitStatesExchange w addr (n + k) (tr @ polls k addr)"
proof (induction k arbitrary: n tr)
  case 0
  then show ?case by (simp add: polls_def)
next
  case (Suc k)
  from Suc.prems have p0: "pending (GetChannel w n addr)"
    by (metis add.right_neutral zero_less_Suc)
  from Suc.prems have rest: "\<forall>i<k. pending (GetChannel w (Suc n + i) addr)"
    by (metis Suc_less_eq add_Suc_shift)
  have "waitStatesExchange w addr n tr =
        waitStatesExchange w addr (Suc n) (tr @ [CallGetChannel addr, Sleep 500])"
    using p0 by (rule wait_retry)
  also have "\<dots> = waitStatesExchange w addr (Suc n + k) ((tr @ [CallGetChannel addr, Sleep 500]) @ polls k addr)"
    using rest by (rule Suc.IH)
  finally show ?case by (simp add: polls_def)
qed

lemma wait_ready:
  "GetChannel w n addr = Inr c \<Longrightarrow> IsReady (Our c) \<Longrightarrow> IsReady (Their c) \<Longrightarrow>
   waitStatesExchange w addr n tr = Some (None, tr @ [CallGetChannel addr])"
  by (subst waitStatesExchange.simps) simp

lemma wait_error:
  "GetChannel w n addr = Inl e \<Longrightarrow> \<not> errors_Is e ErrNotFound \<Longrightarrow>
   waitStatesExchange w addr n tr =
     Some (Some (Wrap ''failed to get channel'' e), tr @ [CallGetChannel addr])"
  by (subst waitStatesExchange.simps) simp

lemma wait_never_Some:
  assumes "waitStatesExchange w addr n tr = Some y"
  shows "\<exists>i. \<not> pending (GetChannel w i addr)"
proof (rule waitStatesExchange.raw_induct
    [where P = "\<lambda>w addr n tr y. \<exists>i. \<not> pending (GetChannel w i addr)", OF _ assms], goal_cases)
  case (1 f w addr n tr y)
  show ?case
  proof (cases "pending (GetChannel w n addr)")
    case True
    with 1(2) have "f w addr (Suc n) (tr @ [CallGetChannel addr, Sleep 500]) = Some y"
      by (auto simp: pending_def split: sum.splits if_splits)
    then show ?thesis by (rule 1(1))
  next
    case False
    then show ?thesis by blast
  qed
qed

lemma wait_never:
  "\<forall>i. pending (GetChannel w i addr) \<Longrightarrow> waitStatesExchange w addr n tr = None"
  using wait_never_Some [of w addr n tr] by (cases "waitStatesExchange w addr n tr") auto

lemma wait_trace:
  assumes "waitStatesExchange w addr n tr = Some y"
  shows "\<exists>k. snd y = tr @ polls k addr @ [CallGetChannel addr]"
proof (rule waitStatesExchange.raw_induct
    [where P = "\<lambda>w addr n tr y. \<exists>k. snd y = tr @ polls k addr @ [CallGetChannel addr]",
     OF _ assms], goal_cases)
  case (1 f w addr n tr y)
  show ?case
  proof (cases "pending (GetChannel w n addr)")
    case True
    with 1(2) have "f w addr (Suc n) (tr @ [CallGetChannel addr, Sleep 500]) = Some y"
      by (auto simp: pending_def split: sum.splits if_splits)
    then obtain k where "snd y = (tr @ [CallGetChannel addr, Sleep 500]) @ polls k addr @ [CallGetChannel addr]"
      using 1(1) by blast
    then have "snd y = tr @ polls (Suc k) addr @ [CallGetChannel addr]"
      by (simp add: polls_def)
    then show ?thesis ..
  next
    case False
    with 1(2) have "snd y = tr @ polls 0 addr @ [CallGetChannel addr]"
      by (auto simp: pending_def polls_def split: sum.splits if_splits)
    then show ?thesis ..
  qed
qed


lemma select_best:
  assumes "ListChannels w = Inr list" and "list \<noteq> []" and "len ch = 0"
    and "\<forall>c\<in>set list. channel_ok c"
  shows "spec_best_channel list \<in> set list \<and>
         selectOrDeploy w ch =
           (Finished (Inr (Key (TheirOnchain (spec_best_channel list)))), [CallListChannels])"
proof -
  let ?P = "\<lambda>c. \<forall>c'\<in>set list. Deposited (TheirOnchain c') \<le> Deposited (TheirOnchain c)"
  from assms(4) have nonneg: "\<forall>c\<in>set list. 0 \<le> Deposited (TheirOnchain c)"
    by (simp add: channel_ok_def)
  from scanChannels_best [OF assms(3) assms(2) nonneg]
  have ne: "filter ?P list \<noteq> []"
    and sc: "scanChannels ch list None 0 =
      Best (Key (TheirOnchain (spec_best_channel list))) (Deposited (TheirOnchain (spec_best_channel list)))"
    by simp_all
  from ne have "spec_best_channel list \<in> set (filter ?P list)"
    unfolding spec_best_channel_def by (rule last_in_set)
  then have mem: "spec_best_channel list \<in> set list"
    by simp
  with assms(4) have "len (Key (TheirOnchain (spec_best_channel list))) = PublicKeySize"
    by (simp add: channel_ok_def)
  then have "Key (TheirOnchain (spec_best_channel list)) \<noteq> None"
    by (auto simp: len_def PublicKeySize_def split: option.splits)
  with sc assms(1) mem show ?thesis
    by (simp add: selectOrDeploy_def)
qed

text \<open>
  Claim C2. When no counterparty is given (\<open>len ch = 0\<close>) and the list of active
  channels is not empty, the function returns, without deploying, the key of the channel
  with the maximum deposited amount, the last such channel in iteration order on a tie
  (\<open>spec_best_channel\<close>, the rule in the words of the specification). The channels
  are those of the data model: a key of the fixed size and a deposit that is not
  negative. For the deposits 10, 50, 50, 20 the example after the theorem gives the later
  of the two channels with deposit 50.
\<close>

theorem best_deposit_last_wins:
  assumes "ListChannels w = Inr list" and "list \<noteq> []" and "len ch = 0"
    and "\<forall>c\<in>set list. channel_ok c"
  shows "preparePaymentChannel w ch =
           Some (Inr (Key (TheirOnchain (spec_best_channel list))), [CallListChannels])"
  using select_best [OF assms] by (simp add: preparePaymentChannel_def)

theorem best_deposit_last_wins_witness:
  "len None = 0 \<and>
   list_all channel_ok [chan 1 ''EQa'' 10 True, chan 2 ''EQb'' 50 True, chan 3 ''EQc'' 50 True, chan 4 ''EQd'' 20 True] \<and>
   spec_best_channel [chan 1 ''EQa'' 10 True, chan 2 ''EQb'' 50 True, chan 3 ''EQc'' 50 True, chan 4 ''EQd'' 20 True]
     = chan 3 ''EQc'' 50 True \<and>
   preparePaymentChannel
     (world_of [chan 1 ''EQa'' 10 True, chan 2 ''EQb'' 50 True, chan 3 ''EQc'' 50 True, chan 4 ''EQd'' 20 True]) None
     = Some (Inr (key 3), [CallListChannels])"
  using best_deposit_last_wins
    [of "world_of [chan 1 ''EQa'' 10 True, chan 2 ''EQb'' 50 True, chan 3 ''EQc'' 50 True, chan 4 ''EQd'' 20 True]"
        "[chan 1 ''EQa'' 10 True, chan 2 ''EQb'' 50 True, chan 3 ''EQc'' 50 True, chan 4 ''EQd'' 20 True]" None]
  by (simp add: world_of_def chan_def key_def channel_ok_def len_def PublicKeySize_def spec_best_channel_def)

text \<open>
  Claim C10. The search starts from the amount 0 and compares with greater-or-equal, so
  with no counterparty given and a list of active channels that is not empty, the
  function always returns the key of one of the listed channels, also when every
  deposit is zero, and the only thing it has done is to list the channels: it neither
  prompts nor deploys.
\<close>

theorem nonempty_list_never_deploys:
  assumes "ListChannels w = Inr list" and "list \<noteq> []" and "len ch = 0"
    and "\<forall>c\<in>set list. channel_ok c"
  shows "\<exists>c. c \<in> set list \<and>
           selectOrDeploy w ch = (Finished (Inr (Key (TheirOnchain c))), [CallListChannels]) \<and>
           preparePaymentChannel w ch = Some (Inr (Key (TheirOnchain c)), [CallListChannels])"
proof -
  from select_best [OF assms]
  have "spec_best_channel list \<in> set list \<and>
        selectOrDeploy w ch = (Finished (Inr (Key (TheirOnchain (spec_best_channel list)))), [CallListChannels]) \<and>
        preparePaymentChannel w ch = Some (Inr (Key (TheirOnchain (spec_best_channel list))), [CallListChannels])"
    by (simp add: preparePaymentChannel_def)
  then show ?thesis ..
qed

theorem nonempty_list_never_deploys_witness:
  "len None = 0 \<and> list_all channel_ok [chan 1 ''EQa'' 0 False, chan 2 ''EQb'' 0 False] \<and>
   preparePaymentChannel (world_of [chan 1 ''EQa'' 0 False, chan 2 ''EQb'' 0 False]) None
     = Some (Inr (key 2), [CallListChannels])"
proof -
  let ?l = "[chan 1 ''EQa'' 0 False, chan 2 ''EQb'' 0 False]"
  have ok: "\<forall>c\<in>set ?l. channel_ok c"
    by (simp add: chan_def key_def channel_ok_def len_def PublicKeySize_def)
  have l: "ListChannels (world_of ?l) = Inr ?l"
    by (simp add: world_of_def)
  from nonempty_list_never_deploys [OF l _ len_None ok]
  obtain c where "c \<in> set ?l"
    and "preparePaymentChannel (world_of ?l) None = Some (Inr (Key (TheirOnchain c)), [CallListChannels])"
    by auto
  moreover have "preparePaymentChannel (world_of ?l) None = Some (Inr (key 2), [CallListChannels])"
    by (simp add: preparePaymentChannel_def selectOrDeploy_def world_of_def chan_def key_def len_def)
  ultimately show ?thesis using ok
    by (simp add: len_def list_all_iff)
qed


lemma success_after_wait:
  assumes "selectOrDeploy w ch = (Waiting ch' addr, tr0)"
    and "preparePaymentChannel w ch = Some (Inr r, tr)"
  shows "r = ch' \<and> (\<exists>k. tr = tr0 @ polls k addr @ [CallGetChannel addr, LogInfoExchangeCompleted addr])"
proof -
  from assms obtain tr' where w: "waitStatesExchange w addr 0 tr0 = Some (None, tr')"
    and r: "r = ch'" and tr: "tr = tr' @ [LogInfoExchangeCompleted addr]"
    by (auto simp: preparePaymentChannel_def split: option.splits)
  from wait_trace [OF w] obtain k where "tr' = tr0 @ polls k addr @ [CallGetChannel addr]"
    by auto
  with r tr show ?thesis by auto
qed

lemma set_polls: "set (polls k addr) \<subseteq> {CallGetChannel addr, Sleep 500}"
  by (induction k) (auto simp: polls_def)

lemma deployChannel_Waiting:
  "deployChannel w k = (Waiting ch' addr, tr) \<Longrightarrow>
   ch' = k \<and> len k = PublicKeySize \<and> OpenChannelWithNode w k = Inr addr \<and>
   tr = [CallOpenChannelWithNode k 150, LogInfoDeployed addr]"
  by (auto simp: deployChannel_def split: if_splits sum.splits)

text \<open>
  Claim C3. With a counterparty given (\<open>0 < len ch\<close>): if a listed channel has that
  key, the function returns the first such channel at once, having only listed the
  channels, whatever the deposits and the readiness flags of the channels are; if none
  has it, the function goes on to the deployment with the given key as the target,
  without prompting, and a successful call returns the given key.
\<close>

theorem explicit_counterparty_selected:
  assumes "ListChannels w = Inr list" and "0 < len ch"
  shows "(\<forall>c. find (\<lambda>c. bytes_Equal (Key (TheirOnchain c)) ch) list = Some c \<longrightarrow>
            preparePaymentChannel w ch = Some (Inr (Key (TheirOnchain c)), [CallListChannels])) \<and>
         (find (\<lambda>c. bytes_Equal (Key (TheirOnchain c)) ch) list = None \<longrightarrow>
            selectOrDeploy w ch =
              (if len ch \<noteq> PublicKeySize
               then (Finished (Inl (New ''invalid channel id length'')), [CallListChannels])
               else
                 (case OpenChannelWithNode w ch of
                    Inl err \<Rightarrow>
                      (Finished (Inl (Wrap ''failed to deploy channel with node'' err)),
                       [CallListChannels, CallOpenChannelWithNode ch 150])
                  | Inr addr \<Rightarrow>
                      (Waiting ch addr,
                       [CallListChannels, CallOpenChannelWithNode ch 150, LogInfoDeployed addr]))) \<and>
            (\<forall>r tr. preparePaymentChannel w ch = Some (Inr r, tr) \<longrightarrow>
               r = ch \<and> CallOpenChannelWithNode ch 150 \<in> set tr \<and> CallScanln \<notin> set tr))"
proof (intro conjI allI impI)
  fix c
  assume "find (\<lambda>c. bytes_Equal (Key (TheirOnchain c)) ch) list = Some c"
  with assms show "preparePaymentChannel w ch = Some (Inr (Key (TheirOnchain c)), [CallListChannels])"
    by (simp add: preparePaymentChannel_def selectOrDeploy_def scanChannels_explicit)
next
  assume none: "find (\<lambda>c. bytes_Equal (Key (TheirOnchain c)) ch) list = None"
  from assms(2) have pk: "promptKey w ch = (Inr ch, [])"
    by (simp add: promptKey_def)
  from assms none pk
  show sel: "selectOrDeploy w ch =
      (if len ch \<noteq> PublicKeySize
       then (Finished (Inl (New ''invalid channel id length'')), [CallListChannels])
       else
         (case OpenChannelWithNode w ch of
            Inl err \<Rightarrow>
              (Finished (Inl (Wrap ''failed to deploy channel with node'' err)),
               [CallListChannels, CallOpenChannelWithNode ch 150])
          | Inr addr \<Rightarrow>
              (Waiting ch addr,
               [CallListChannels, CallOpenChannelWithNode ch 150, LogInfoDeployed addr])))"
    by (simp add: selectOrDeploy_def scanChannels_explicit deployChannel_def split: sum.splits)
  fix r tr
  assume ok: "preparePaymentChannel w ch = Some (Inr r, tr)"
  show "r = ch"
  proof (cases "len ch \<noteq> PublicKeySize")
    case True
    with sel ok show ?thesis by (simp add: preparePaymentChannel_def)
  next
    case False
    show ?thesis
    proof (cases "OpenChannelWithNode w ch")
      case (Inl err)
      with False sel ok show ?thesis by (simp add: preparePaymentChannel_def)
    next
      case (Inr addr)
      with False sel have "selectOrDeploy w ch =
          (Waiting ch addr, [CallListChannels, CallOpenChannelWithNode ch 150, LogInfoDeployed addr])"
        by simp
      from success_after_wait [OF this ok] show ?thesis by simp
    qed
  qed
  show "CallOpenChannelWithNode ch 150 \<in> set tr"
  proof (cases "len ch \<noteq> PublicKeySize")
    case True
    with sel ok show ?thesis by (simp add: preparePaymentChannel_def)
  next
    case False
    show ?thesis
    proof (cases "OpenChannelWithNode w ch")
      case (Inl err)
      with False sel ok show ?thesis by (simp add: preparePaymentChannel_def)
    next
      case (Inr addr)
      with False sel have "selectOrDeploy w ch =
          (Waiting ch addr, [CallListChannels, CallOpenChannelWithNode ch 150, LogInfoDeployed addr])"
        by simp
      from success_after_wait [OF this ok] show ?thesis by auto
    qed
  qed
  show "CallScanln \<notin> set tr"
  proof (cases "len ch \<noteq> PublicKeySize")
    case True
    with sel ok show ?thesis by (simp add: preparePaymentChannel_def)
  next
    case False
    show ?thesis
    proof (cases "OpenChannelWithNode w ch")
      case (Inl err)
      with False sel ok show ?thesis by (simp add: preparePaymentChannel_def)
    next
      case (Inr addr)
      with False sel have "selectOrDeploy w ch =
          (Waiting ch addr, [CallListChannels, CallOpenChannelWithNode ch 150, LogInfoDeployed addr])"
        by simp
      from success_after_wait [OF this ok] obtain k where
        "tr = [CallListChannels, CallOpenChannelWithNode ch 150, LogInfoDeployed addr]
              @ polls k addr @ [CallGetChannel addr, LogInfoExchangeCompleted addr]"
        by auto
      with set_polls [of k addr] show ?thesis by auto
    qed
  qed
qed


lemma example_deploy:
  "preparePaymentChannel (world_of [chan 1 ''EQa'' 100 True, chan 2 ''EQb'' 5 False]) (key 7) =
     Some (Inr (key 7),
       [CallListChannels, CallOpenChannelWithNode (key 7) 150, LogInfoDeployed ''EQnew'',
        CallGetChannel ''EQnew'', Sleep 500, CallGetChannel ''EQnew'', Sleep 500,
        CallGetChannel ''EQnew'', LogInfoExchangeCompleted ''EQnew''])"
  by (simp add: preparePaymentChannel_def selectOrDeploy_def promptKey_def deployChannel_def
      world_of_def chan_def key_def len_def bytes_Equal_def PublicKeySize_def
      waitStatesExchange.simps)

theorem explicit_counterparty_selected_witness:
  "0 < len (key 2) \<and>
   find (\<lambda>c. bytes_Equal (Key (TheirOnchain c)) (key 2))
     [chan 1 ''EQa'' 100 True, chan 2 ''EQb'' 5 False] = Some (chan 2 ''EQb'' 5 False) \<and>
   preparePaymentChannel (world_of [chan 1 ''EQa'' 100 True, chan 2 ''EQb'' 5 False]) (key 2)
     = Some (Inr (key 2), [CallListChannels]) \<and>
   find (\<lambda>c. bytes_Equal (Key (TheirOnchain c)) (key 7))
     [chan 1 ''EQa'' 100 True, chan 2 ''EQb'' 5 False] = None \<and>
   selectOrDeploy (world_of [chan 1 ''EQa'' 100 True, chan 2 ''EQb'' 5 False]) (key 7)
     = (Waiting (key 7) ''EQnew'',
        [CallListChannels, CallOpenChannelWithNode (key 7) 150, LogInfoDeployed ''EQnew'']) \<and>
   fst (the (preparePaymentChannel (world_of [chan 1 ''EQa'' 100 True, chan 2 ''EQb'' 5 False]) (key 7)))
     = Inr (key 7)"
proof -
  let ?l = "[chan 1 ''EQa'' 100 True, chan 2 ''EQb'' 5 False]"
  have l: "ListChannels (world_of ?l) = Inr ?l"
    by (simp add: world_of_def)
  have k2: "0 < len (key 2)" and k7: "0 < len (key 7)"
    by (simp_all add: key_def len_def)
  have f2: "find (\<lambda>c. bytes_Equal (Key (TheirOnchain c)) (key 2)) ?l = Some (chan 2 ''EQb'' 5 False)"
    by (simp add: chan_def key_def bytes_Equal_def)
  have f7: "find (\<lambda>c. bytes_Equal (Key (TheirOnchain c)) (key 7)) ?l = None"
    by (simp add: chan_def key_def bytes_Equal_def)
  have o7: "OpenChannelWithNode (world_of ?l) (key 7) = Inr ''EQnew''" and s7: "len (key 7) = PublicKeySize"
    by (simp_all add: world_of_def key_def len_def PublicKeySize_def)
  from explicit_counterparty_selected [OF l k2] f2
  have a: "preparePaymentChannel (world_of ?l) (key 2) = Some (Inr (key 2), [CallListChannels])"
    by (simp add: chan_def)
  from explicit_counterparty_selected [OF l k7] f7 o7 s7
  have b: "selectOrDeploy (world_of ?l) (key 7)
     = (Waiting (key 7) ''EQnew'',
        [CallListChannels, CallOpenChannelWithNode (key 7) 150, LogInfoDeployed ''EQnew''])"
    by simp
  from k2 f2 a f7 b example_deploy show ?thesis by simp
qed


lemma scanChannels_Return:
  "scanChannels ch list best bestAmount = Return k \<Longrightarrow> \<exists>c. c \<in> set list \<and> k = Key (TheirOnchain c)"
  by (induction list arbitrary: best bestAmount) (auto split: if_splits)

lemma scanChannels_Best:
  "scanChannels ch list best bestAmount = Best b a \<Longrightarrow>
   b = best \<or> (\<exists>c. c \<in> set list \<and> b = Key (TheirOnchain c))"
  by (induction list arbitrary: best bestAmount) (auto split: if_splits)

lemma selectOrDeploy_Finished:
  assumes "ListChannels w = Inr list" and "selectOrDeploy w ch = (Finished (Inr r), tr)"
  shows "(\<exists>c. c \<in> set list \<and> r = Key (TheirOnchain c)) \<and> tr = [CallListChannels]"
proof (cases "scanChannels ch list None 0")
  case (Return k)
  with assms scanChannels_Return [OF Return] show ?thesis
    by (auto simp: selectOrDeploy_def)
next
  case (Best b a)
  show ?thesis
  proof (cases "b = None")
    case True
    with assms Best show ?thesis
      by (auto simp: selectOrDeploy_def deployChannel_def split: prod.splits sum.splits if_splits)
  next
    case False
    with assms Best scanChannels_Best [OF Best] show ?thesis
      by (auto simp: selectOrDeploy_def)
  qed
qed

lemma selectOrDeploy_Waiting:
  assumes "selectOrDeploy w ch = (Waiting k addr, tr)"
  shows "len k = PublicKeySize \<and> OpenChannelWithNode w k = Inr addr \<and>
         CallOpenChannelWithNode k 150 \<in> set tr"
  using assms
  by (auto simp: selectOrDeploy_def split: sum.splits scan.splits if_splits prod.splits
      dest!: deployChannel_Waiting)

text \<open>
  Claim C1, as amended. Every successful call returns a counterparty public key, not an
  address: the key of one of the listed channels, when the function selected a channel
  (it has then only listed the channels), or the key that the new channel was deployed
  with, when it deployed one and waited for it at the address the deployment gave.
\<close>

theorem returns_counterparty_key:
  assumes "preparePaymentChannel w ch = Some (Inr r, tr)" and "ListChannels w = Inr list"
  shows "(\<exists>c. c \<in> set list \<and> r = Key (TheirOnchain c) \<and> tr = [CallListChannels]) \<or>
         (\<exists>addr. len r = PublicKeySize \<and> OpenChannelWithNode w r = Inr addr \<and>
            CallOpenChannelWithNode r 150 \<in> set tr \<and> last tr = LogInfoExchangeCompleted addr)"
proof (cases "selectOrDeploy w ch")
  case (Pair p tr0)
  show ?thesis
  proof (cases p)
    case (Finished res)
    with Pair assms(1) have "selectOrDeploy w ch = (Finished (Inr r), tr)"
      by (simp add: preparePaymentChannel_def)
    from selectOrDeploy_Finished [OF assms(2) this] show ?thesis by blast
  next
    case (Waiting k addr)
    with Pair have sel: "selectOrDeploy w ch = (Waiting k addr, tr0)" by simp
    from success_after_wait [OF sel assms(1)] obtain n where
      r: "r = k" and tr: "tr = tr0 @ polls n addr @ [CallGetChannel addr, LogInfoExchangeCompleted addr]"
      by auto
    from selectOrDeploy_Waiting [OF sel] r tr show ?thesis by auto
  qed
qed

theorem returns_counterparty_key_witness:
  "preparePaymentChannel (world_of [chan 1 ''EQa'' 100 True, chan 2 ''EQb'' 5 False]) (key 7) =
     Some (Inr (key 7),
       [CallListChannels, CallOpenChannelWithNode (key 7) 150, LogInfoDeployed ''EQnew'',
        CallGetChannel ''EQnew'', Sleep 500, CallGetChannel ''EQnew'', Sleep 500,
        CallGetChannel ''EQnew'', LogInfoExchangeCompleted ''EQnew'']) \<and>
   len (key 7) = PublicKeySize \<and>
   OpenChannelWithNode (world_of [chan 1 ''EQa'' 100 True, chan 2 ''EQb'' 5 False]) (key 7) = Inr ''EQnew'' \<and>
   key 7 \<noteq> Key (TheirOnchain (chan 1 ''EQa'' 100 True)) \<and>
   key 7 \<noteq> Key (TheirOnchain (chan 2 ''EQb'' 5 False))"
proof -
  let ?l = "[chan 1 ''EQa'' 100 True, chan 2 ''EQb'' 5 False]"
  have l: "ListChannels (world_of ?l) = Inr ?l"
    by (simp add: world_of_def)
  from returns_counterparty_key [OF example_deploy l] example_deploy
  show ?thesis
    by (simp add: chan_def key_def)
qed

text \<open>
  The claim as stated fails: the value returned for a selected channel is its
  counterparty key, which is not its address and does not change with the address, and
  the value returned after a deployment is the key deployed with, not the address
  \<open>''EQnew''\<close> of the new channel.
\<close>

theorem returns_address_counterexample:
  "preparePaymentChannel (world_of [chan 1 ''EQa'' 10 True]) None
     = Some (Inr (key 1), [CallListChannels]) \<and>
   key 1 \<noteq> bytes_of_string (Address (chan 1 ''EQa'' 10 True)) \<and>
   preparePaymentChannel (world_of [chan 1 ''EQb'' 10 True]) None
     = Some (Inr (key 1), [CallListChannels]) \<and>
   preparePaymentChannel (world_of [chan 1 ''EQa'' 10 True]) (key 1)
     = Some (Inr (key 1), [CallListChannels]) \<and>
   fst (the (preparePaymentChannel (world_of [chan 1 ''EQa'' 100 True, chan 2 ''EQb'' 5 False]) (key 7)))
     = Inr (key 7) \<and>
   OpenChannelWithNode (world_of [chan 1 ''EQa'' 100 True, chan 2 ''EQb'' 5 False]) (key 7) = Inr ''EQnew'' \<and>
   key 7 \<noteq> bytes_of_string ''EQnew''"
proof -
  have neq: "key x \<noteq> bytes_of_string a" if "length a \<noteq> 32" for x a
  proof
    assume "key x = bytes_of_string a"
    then have "len (key x) = len (bytes_of_string a)" by simp
    with that show False by (simp add: key_def bytes_of_string_def len_def)
  qed
  have "key 1 \<noteq> bytes_of_string ''EQa''" and "key 7 \<noteq> bytes_of_string ''EQnew''"
    by (rule neq, simp)+
  moreover have "preparePaymentChannel (world_of [chan 1 a 10 True]) None
      = Some (Inr (key 1), [CallListChannels])" for a
    by (simp add: preparePaymentChannel_def selectOrDeploy_def world_of_def chan_def key_def len_def)
  moreover have "preparePaymentChannel (world_of [chan 1 ''EQa'' 10 True]) (key 1)
      = Some (Inr (key 1), [CallListChannels])"
    by (simp add: preparePaymentChannel_def selectOrDeploy_def world_of_def chan_def key_def
        len_def bytes_Equal_def)
  ultimately show ?thesis
    by (simp add: example_deploy) (simp add: world_of_def chan_def)
qed

text \<open>
  Claim C7. After a deployment the function polls \<^verbatim>\<open>GetChannel\<close> for the address of the
  new channel and sleeps 500 ms after every poll that finds the channel missing
  (NotFound, also wrapped) or not ready on both sides (\<open>pending\<close>). If after \<open>k\<close> such
  polls the channel is ready on both sides, the function returns the key; if the poll
  fails with another error, the function returns that error, wrapped, at once; and if
  every poll is pending the function never returns, so the wait has no deadline.
\<close>

theorem readiness_wait:
  assumes "selectOrDeploy w ch = (Waiting ch' addr, tr0)"
  shows "(\<forall>k c. (\<forall>i<k. pending (GetChannel w i addr)) \<and> GetChannel w k addr = Inr c \<and>
              IsReady (Our c) \<and> IsReady (Their c) \<longrightarrow>
            preparePaymentChannel w ch =
              Some (Inr ch', tr0 @ polls k addr @ [CallGetChannel addr, LogInfoExchangeCompleted addr])) \<and>
         (\<forall>k e. (\<forall>i<k. pending (GetChannel w i addr)) \<and> GetChannel w k addr = Inl e \<and>
              \<not> errors_Is e ErrNotFound \<longrightarrow>
            preparePaymentChannel w ch =
              Some (Inl (Wrap ''failed to get channel'' e), tr0 @ polls k addr @ [CallGetChannel addr])) \<and>
         ((\<forall>i. pending (GetChannel w i addr)) \<longrightarrow> preparePaymentChannel w ch = None)"
proof (intro conjI allI impI)
  fix k c
  assume h: "(\<forall>i<k. pending (GetChannel w i addr)) \<and> GetChannel w k addr = Inr c \<and>
              IsReady (Our c) \<and> IsReady (Their c)"
  then have "\<forall>i<k. pending (GetChannel w (0 + i) addr)" by simp
  from wait_retries [OF this, of tr0]
  have "waitStatesExchange w addr 0 tr0 = waitStatesExchange w addr k (tr0 @ polls k addr)"
    by simp
  also from h have "\<dots> = Some (None, (tr0 @ polls k addr) @ [CallGetChannel addr])"
    by (intro wait_ready) auto
  finally show "preparePaymentChannel w ch =
      Some (Inr ch', tr0 @ polls k addr @ [CallGetChannel addr, LogInfoExchangeCompleted addr])"
    using assms by (simp add: preparePaymentChannel_def)
next
  fix k e
  assume h: "(\<forall>i<k. pending (GetChannel w i addr)) \<and> GetChannel w k addr = Inl e \<and>
              \<not> errors_Is e ErrNotFound"
  then have "\<forall>i<k. pending (GetChannel w (0 + i) addr)" by simp
  from wait_retries [OF this, of tr0]
  have "waitStatesExchange w addr 0 tr0 = waitStatesExchange w addr k (tr0 @ polls k addr)"
    by simp
  also from h have "\<dots> = Some (Some (Wrap ''failed to get channel'' e), (tr0 @ polls k addr) @ [CallGetChannel addr])"
    by (intro wait_error) auto
  finally show "preparePaymentChannel w ch =
      Some (Inl (Wrap ''failed to get channel'' e), tr0 @ polls k addr @ [CallGetChannel addr])"
    using assms by (simp add: preparePaymentChannel_def)
next
  assume "\<forall>i. pending (GetChannel w i addr)"
  then have "waitStatesExchange w addr 0 tr0 = None" by (rule wait_never)
  with assms show "preparePaymentChannel w ch = None"
    by (simp add: preparePaymentChannel_def)
qed


theorem readiness_wait_witness:
  "selectOrDeploy (world_of []) (key 7) =
     (Waiting (key 7) ''EQnew'',
      [CallListChannels, CallOpenChannelWithNode (key 7) 150, LogInfoDeployed ''EQnew'']) \<and>
   pending (GetChannel (world_of []) 0 ''EQnew'') \<and>
   pending (GetChannel (world_of []) 1 ''EQnew'') \<and>
   preparePaymentChannel (world_of []) (key 7) =
     Some (Inr (key 7),
       [CallListChannels, CallOpenChannelWithNode (key 7) 150, LogInfoDeployed ''EQnew'',
        CallGetChannel ''EQnew'', Sleep 500, CallGetChannel ''EQnew'', Sleep 500,
        CallGetChannel ''EQnew'', LogInfoExchangeCompleted ''EQnew'']) \<and>
   pending (GetChannel world_failing 0 ''EQnew'') \<and>
   preparePaymentChannel world_failing (key 7) =
     Some (Inl (Wrap ''failed to get channel'' (New ''leveldb: closed'')),
       [CallListChannels, CallOpenChannelWithNode (key 7) 150, LogInfoDeployed ''EQnew'',
        CallGetChannel ''EQnew'', Sleep 500, CallGetChannel ''EQnew'']) \<and>
   pending (GetChannel world_never 5 ''EQnew'') \<and>
   preparePaymentChannel world_never (key 7) = None"
proof -
  let ?tr0 = "[CallListChannels, CallOpenChannelWithNode (key 7) 150, LogInfoDeployed ''EQnew'']"
  have sel: "selectOrDeploy (world_of []) (key 7) = (Waiting (key 7) ''EQnew'', ?tr0)"
    and self: "selectOrDeploy world_failing (key 7) = (Waiting (key 7) ''EQnew'', ?tr0)"
    and seln: "selectOrDeploy world_never (key 7) = (Waiting (key 7) ''EQnew'', ?tr0)"
    by (simp_all add: selectOrDeploy_def promptKey_def deployChannel_def world_of_def
        world_failing_def world_never_def key_def len_def PublicKeySize_def)
  have p2: "\<forall>i<2. pending (GetChannel (world_of []) i ''EQnew'')"
    by (simp add: world_of_def pending_def)
  have r2: "GetChannel (world_of []) 2 ''EQnew'' = Inr (chan 9 ''EQnew'' 0 True)"
    by (simp add: world_of_def)
  have p1: "\<forall>i<1. pending (GetChannel world_failing i ''EQnew'')"
    by (simp add: world_failing_def world_of_def pending_def chan_def)
  have e1: "GetChannel world_failing 1 ''EQnew'' = Inl (New ''leveldb: closed'')"
    by (simp add: world_failing_def world_of_def)
  have pn: "\<forall>i. pending (GetChannel world_never i ''EQnew'')"
    by (simp add: world_never_def world_of_def pending_def)
  have pl: "polls 2 a = [CallGetChannel a, Sleep 500, CallGetChannel a, Sleep 500]"
    "polls (Suc 0) a = [CallGetChannel a, Sleep 500]" for a
    by (simp_all add: polls_def numeral_2_eq_2)
  from readiness_wait [OF sel] p2 r2
  have a: "preparePaymentChannel (world_of []) (key 7) =
     Some (Inr (key 7), ?tr0 @ polls 2 ''EQnew'' @ [CallGetChannel ''EQnew'', LogInfoExchangeCompleted ''EQnew''])"
    by (simp add: chan_def)
  from readiness_wait [OF self] p1 e1
  have b: "preparePaymentChannel world_failing (key 7) =
     Some (Inl (Wrap ''failed to get channel'' (New ''leveldb: closed'')),
           ?tr0 @ polls 1 ''EQnew'' @ [CallGetChannel ''EQnew''])"
    by simp
  from readiness_wait [OF seln] pn
  have c: "preparePaymentChannel world_never (key 7) = None"
    by simp
  from sel a b c p2 p1 pn show ?thesis
    by (simp add: pl)
qed


section \<open>Properties of the startup\<close>

lemma replayChannels_eq:
  "replayChannels chList =
     map (\<lambda>c. CallOnChannelUpdate c True) (filter (\<lambda>c. Status c \<noteq> ChannelStateInactive) chList)"
  by (induction chList) simp_all

lemma runMigrationsFrom_events:
  "runMigrationsFrom v ms = (r, tr) \<Longrightarrow>
   filter is_update tr = [] \<and> filter is_scanner_start tr = [] \<and> filter is_migration tr = tr"
  by (induction ms arbitrary: v r tr) (auto split: option.splits prod.splits)

lemma runMigrationsFrom_ok:
  "\<forall>m\<in>set ms. m = None \<Longrightarrow>
   runMigrationsFrom v ms = (None, map RunMigration [Suc v ..< Suc (v + length ms)])"
proof (induction ms arbitrary: v)
  case Nil
  then show ?case by simp
next
  case (Cons m ms)
  from Cons.prems have m: "m = None" and rest: "\<forall>m\<in>set ms. m = None"
    by simp_all
  have "runMigrationsFrom (Suc v) ms = (None, map RunMigration [Suc (Suc v) ..< Suc (Suc v + length ms)])"
    using rest by (rule Cons.IH)
  then have ih: "runMigrationsFrom (Suc v) ms = (None, map RunMigration [Suc (Suc v) ..< Suc (Suc (v + length ms))])"
    by (simp del: upt_Suc)
  have "[Suc v ..< Suc (Suc (v + length ms))] = Suc v # [Suc (Suc v) ..< Suc (Suc (v + length ms))]"
    by (rule upt_conv_Cons) simp
  with m ih show ?case by (simp del: upt_Suc)
qed

lemma runMigrationsFrom_fail:
  "\<forall>m\<in>set pre. m = None \<Longrightarrow>
   runMigrationsFrom v (pre @ Some err # post) =
     (Some err, map RunMigration [Suc v ..< Suc (Suc (v + length pre))])"
proof (induction pre arbitrary: v)
  case Nil
  have "[Suc v ..< Suc (Suc v)] = [Suc v]" by simp
  then show ?case by (simp del: upt_Suc)
next
  case (Cons m pre)
  from Cons.prems have m: "m = None" and rest: "\<forall>m\<in>set pre. m = None"
    by simp_all
  have "runMigrationsFrom (Suc v) (pre @ Some err # post) =
      (Some err, map RunMigration [Suc (Suc v) ..< Suc (Suc (Suc v + length pre))])"
    using rest by (rule Cons.IH)
  then have ih: "runMigrationsFrom (Suc v) (pre @ Some err # post) =
      (Some err, map RunMigration [Suc (Suc v) ..< Suc (Suc (Suc (v + length pre)))])"
    by (simp del: upt_Suc)
  have "[Suc v ..< Suc (Suc (Suc (v + length pre)))] =
      Suc v # [Suc (Suc v) ..< Suc (Suc (Suc (v + length pre)))]"
    by (rule upt_conv_Cons) simp
  with m ih show ?case by (simp del: upt_Suc)
qed

lemma migrate_events:
  "migrate b fresh = (f, tr, v) \<Longrightarrow> filter is_update tr = [] \<and> filter is_scanner_start tr = []"
  by (auto simp: migrate_def RunMigrations_def split: if_splits option.splits prod.splits
      dest: runMigrationsFrom_events)

lemma openStore_events:
  "openStore b = (f, tr, v) \<Longrightarrow> filter is_update tr = [] \<and> filter is_scanner_start tr = []"
  by (auto simp: openStore_def split: option.splits sum.splits prod.splits dest: migrate_events)

lemma initService_events:
  "filter is_update (snd (initService b)) = [] \<and> filter is_scanner_start (snd (initService b)) = []"
  by (simp add: initService_def split: option.splits)

lemma replay_no_scanner_start: "filter is_scanner_start (replayChannels chList) = []"
  by (induction chList) simp_all

lemma startScanner_events:
  "filter is_scanner_start (snd (startScanner b seqno)) = [CallNewScanner seqno]"
  by (simp add: startScanner_def replay_no_scanner_start split: option.splits sum.splits)

text \<open>
  Claim C4. When the startup has opened the store, read the cursor, started the scanner
  and loaded the channels \<open>chList\<close>, the trace of the whole startup is: what came before,
  then the registration of the scanner as the observer, then the loading of the
  channels, then one notification with the resume flag set for every channel whose
  status is not Inactive, in the order of \<open>chList\<close>, then the wallet and the service.
  No notification is issued before the registration or after the replay, so there are
  exactly as many notifications as channels that are not Inactive.
\<close>

theorem replay_after_registration:
  assumes "openStore b = (None, tr, v)" and "loadSeqno b = Inr seqno"
    and "StartSmall b = None" and "GetChannels b = Inr chList"
  shows "fst (snd (preparePayments b)) =
           (tr @ [CallGetBlockOffset, CallNewScanner seqno, CallStartSmall])
           @ [CallSetOnChannelUpdated, CallGetChannels]
           @ map (\<lambda>c. CallOnChannelUpdate c True) (filter (\<lambda>c. Status c \<noteq> ChannelStateInactive) chList)
           @ snd (initService b) \<and>
         filter is_update (tr @ [CallGetBlockOffset, CallNewScanner seqno, CallStartSmall]) = [] \<and>
         filter is_update (snd (initService b)) = [] \<and>
         length (filter is_update (fst (snd (preparePayments b)))) =
           length (filter (\<lambda>c. Status c \<noteq> ChannelStateInactive) chList)"
proof -
  have tr: "filter is_update tr = []"
    using openStore_events [OF assms(1)] by simp
  have post: "filter is_update (snd (initService b)) = []"
    by (simp add: initService_events)
  have trace: "fst (snd (preparePayments b)) =
           (tr @ [CallGetBlockOffset, CallNewScanner seqno, CallStartSmall])
           @ [CallSetOnChannelUpdated, CallGetChannels]
           @ map (\<lambda>c. CallOnChannelUpdate c True) (filter (\<lambda>c. Status c \<noteq> ChannelStateInactive) chList)
           @ snd (initService b)"
    using assms
    by (simp add: preparePayments_def startScanner_def replayChannels_eq split: prod.splits)
  have "filter is_update (map (\<lambda>c. CallOnChannelUpdate c True) xs) = map (\<lambda>c. CallOnChannelUpdate c True) xs" for xs
    by (induction xs) simp_all
  with tr post trace show ?thesis by simp
qed


lemma boot_resumed_store:
  "openStore boot_resumed =
     (None, [CallAddConnectionsFromConfig, CallStartClient, CallNewLevelDB, CallRunMigrations,
             RunMigration 2, RunMigration 3], 3)"
  by (simp add: openStore_def migrate_def RunMigrations_def boot_resumed_def numeral_2_eq_2 numeral_3_eq_3)

theorem replay_after_registration_witness:
  "openStore boot_resumed =
     (None, [CallAddConnectionsFromConfig, CallStartClient, CallNewLevelDB, CallRunMigrations,
             RunMigration 2, RunMigration 3], 3) \<and>
   loadSeqno boot_resumed = Inr 42 \<and> StartSmall boot_resumed = None \<and>
   GetChannels boot_resumed =
     Inr [chan 1 ''EQa'' 10 True,
          (chan 2 ''EQb'' 50 True)\<lparr>Status := ChannelStateInactive\<rparr>,
          (chan 3 ''EQc'' 0 False)\<lparr>Status := ChannelStateOther 2\<rparr>] \<and>
   fst (snd (preparePayments boot_resumed)) =
     [CallAddConnectionsFromConfig, CallStartClient, CallNewLevelDB, CallRunMigrations,
      RunMigration 2, RunMigration 3, CallGetBlockOffset, CallNewScanner 42, CallStartSmall,
      CallSetOnChannelUpdated, CallGetChannels,
      CallOnChannelUpdate (chan 1 ''EQa'' 10 True) True,
      CallOnChannelUpdate ((chan 3 ''EQc'' 0 False)\<lparr>Status := ChannelStateOther 2\<rparr>) True,
      CallInitWallet, CallNewService, CallSetService] \<and>
   length (filter is_update (fst (snd (preparePayments boot_resumed)))) = 2"
proof -
  have seq: "loadSeqno boot_resumed = Inr 42" and st: "StartSmall boot_resumed = None"
    and ch: "GetChannels boot_resumed =
     Inr [chan 1 ''EQa'' 10 True,
          (chan 2 ''EQb'' 50 True)\<lparr>Status := ChannelStateInactive\<rparr>,
          (chan 3 ''EQc'' 0 False)\<lparr>Status := ChannelStateOther 2\<rparr>]"
    by (simp_all add: loadSeqno_def boot_resumed_def)
  have sv: "snd (initService boot_resumed) = [CallInitWallet, CallNewService, CallSetService]"
    by (simp add: initService_def boot_resumed_def)
  from replay_after_registration [OF boot_resumed_store seq st ch] boot_resumed_store seq st ch sv
  show ?thesis
    by (simp add: chan_def)
qed

lemma replay_no_migration: "filter is_migration (replayChannels chList) = []"
  by (induction chList) simp_all

lemma after_store:
  assumes "openStore b = (None, tr, v)"
  shows "\<exists>rest. fst (snd (preparePayments b)) = tr @ CallGetBlockOffset # rest \<and>
           filter is_migration rest = [] \<and> CallRunMigrations \<notin> set rest \<and>
           snd (snd (preparePayments b)) = v"
  using assms
  by (auto simp: preparePayments_def startScanner_def initService_def replay_no_migration
      replayChannels_eq split: sum.splits option.splits prod.splits)

lemma store_fatal:
  "openStore b = (Some f, tr, v) \<Longrightarrow> preparePayments b = (Some f, tr, v)"
  by (simp add: preparePayments_def)


text \<open>
  Claim C5. Once the connections are up: on a newly created store the version is set to
  the number of migrations and no migration runs (\<^verbatim>\<open>RunMigrations\<close> is not called);
  on an existing store whose pending migrations all succeed, the migrations with the
  versions above the stored one run in ascending order up to the total, and the store
  then holds the total; and a failure of either step ends the startup with a fatal
  error right after the failing step.
\<close>

theorem migrations_at_startup:
  assumes "AddConnectionsFromConfig b = None" and "StartClient b = None"
  shows "(NewLevelDB b = Inr True \<and> SetMigrationVersion b (length (Migrations b)) = None \<longrightarrow>
            snd (snd (preparePayments b)) = length (Migrations b) \<and>
            CallSetMigrationVersion (length (Migrations b)) \<in> set (fst (snd (preparePayments b))) \<and>
            filter is_migration (fst (snd (preparePayments b))) = [] \<and>
            CallRunMigrations \<notin> set (fst (snd (preparePayments b)))) \<and>
         (\<forall>err. NewLevelDB b = Inr True \<and> SetMigrationVersion b (length (Migrations b)) = Some err \<longrightarrow>
            preparePayments b =
              (Some (Fatal ''failed to set initial migration version'' err),
               [CallAddConnectionsFromConfig, CallStartClient, CallNewLevelDB,
                CallSetMigrationVersion (length (Migrations b))],
               MigrationVersion b)) \<and>
         (NewLevelDB b = Inr False \<and> MigrationVersion b \<le> length (Migrations b) \<and>
          (\<forall>m\<in>set (drop (MigrationVersion b) (Migrations b)). m = None) \<longrightarrow>
            filter is_migration (fst (snd (preparePayments b))) =
              map RunMigration [Suc (MigrationVersion b) ..< Suc (length (Migrations b))] \<and>
            snd (snd (preparePayments b)) = length (Migrations b)) \<and>
         (\<forall>pre err post. NewLevelDB b = Inr False \<and>
            drop (MigrationVersion b) (Migrations b) = pre @ Some err # post \<and>
            (\<forall>m\<in>set pre. m = None) \<longrightarrow>
            preparePayments b =
              (Some (Fatal ''failed to run migrations'' err),
               [CallAddConnectionsFromConfig, CallStartClient, CallNewLevelDB, CallRunMigrations]
                 @ map RunMigration [Suc (MigrationVersion b) ..< Suc (Suc (MigrationVersion b + length pre))],
               MigrationVersion b))"
proof (intro conjI allI impI)
  let ?n = "length (Migrations b)"
  let ?pre = "[CallAddConnectionsFromConfig, CallStartClient, CallNewLevelDB]"
  {
    assume h: "NewLevelDB b = Inr True \<and> SetMigrationVersion b ?n = None"
    with assms have "openStore b = (None, ?pre @ [CallSetMigrationVersion ?n], ?n)"
      by (simp add: openStore_def migrate_def)
    from after_store [OF this] obtain rest where
      tr: "fst (snd (preparePayments b)) = (?pre @ [CallSetMigrationVersion ?n]) @ CallGetBlockOffset # rest"
      and rest: "filter is_migration rest = []" "CallRunMigrations \<notin> set rest"
      and v: "snd (snd (preparePayments b)) = ?n"
      by blast
    from v show "snd (snd (preparePayments b)) = ?n" .
    from tr show "CallSetMigrationVersion ?n \<in> set (fst (snd (preparePayments b)))" by simp
    from tr rest show "filter is_migration (fst (snd (preparePayments b))) = []" by simp
    from tr rest show "CallRunMigrations \<notin> set (fst (snd (preparePayments b)))" by simp
  }
  {
    fix err
    assume h: "NewLevelDB b = Inr True \<and> SetMigrationVersion b ?n = Some err"
    with assms have "openStore b =
        (Some (Fatal ''failed to set initial migration version'' err),
         ?pre @ [CallSetMigrationVersion ?n], MigrationVersion b)"
      by (simp add: openStore_def migrate_def)
    from store_fatal [OF this]
    show "preparePayments b =
        (Some (Fatal ''failed to set initial migration version'' err),
         [CallAddConnectionsFromConfig, CallStartClient, CallNewLevelDB, CallSetMigrationVersion ?n],
         MigrationVersion b)"
      by simp
  }
  {
    assume h: "NewLevelDB b = Inr False \<and> MigrationVersion b \<le> ?n \<and>
          (\<forall>m\<in>set (drop (MigrationVersion b) (Migrations b)). m = None)"
    let ?ms = "map RunMigration [Suc (MigrationVersion b) ..< Suc ?n]"
    from h have "runMigrationsFrom (MigrationVersion b) (drop (MigrationVersion b) (Migrations b)) =
        (None, map RunMigration [Suc (MigrationVersion b) ..<
           Suc (MigrationVersion b + length (drop (MigrationVersion b) (Migrations b)))])"
      by (intro runMigrationsFrom_ok) simp
    with h have run: "runMigrationsFrom (MigrationVersion b) (drop (MigrationVersion b) (Migrations b)) =
        (None, ?ms)"
      by (simp del: upt_Suc)
    with assms h have "openStore b = (None, ?pre @ CallRunMigrations # ?ms, ?n)"
      by (auto simp del: upt_Suc simp add: openStore_def migrate_def RunMigrations_def)
    from after_store [OF this] obtain rest where
      tr: "fst (snd (preparePayments b)) = (?pre @ CallRunMigrations # ?ms) @ CallGetBlockOffset # rest"
      and rest: "filter is_migration rest = []"
      and v: "snd (snd (preparePayments b)) = ?n"
      by blast
    have "filter is_migration (map RunMigration xs) = map RunMigration xs" for xs
      by (induction xs) simp_all
    with tr rest show "filter is_migration (fst (snd (preparePayments b))) = ?ms"
      by (simp del: upt_Suc)
    from v show "snd (snd (preparePayments b)) = ?n" .
  }
  {
    fix pre err post
    assume h: "NewLevelDB b = Inr False \<and>
            drop (MigrationVersion b) (Migrations b) = pre @ Some err # post \<and>
            (\<forall>m\<in>set pre. m = None)"
    then have "runMigrationsFrom (MigrationVersion b) (drop (MigrationVersion b) (Migrations b)) =
        (Some err, map RunMigration [Suc (MigrationVersion b) ..< Suc (Suc (MigrationVersion b + length pre))])"
      by (simp del: upt_Suc add: runMigrationsFrom_fail)
    with assms h have "openStore b =
        (Some (Fatal ''failed to run migrations'' err),
         ?pre @ CallRunMigrations #
           map RunMigration [Suc (MigrationVersion b) ..< Suc (Suc (MigrationVersion b + length pre))],
         MigrationVersion b)"
      by (simp del: upt_Suc add: openStore_def migrate_def RunMigrations_def)
    from store_fatal [OF this]
    show "preparePayments b =
              (Some (Fatal ''failed to run migrations'' err),
               [CallAddConnectionsFromConfig, CallStartClient, CallNewLevelDB, CallRunMigrations]
                 @ map RunMigration [Suc (MigrationVersion b) ..< Suc (Suc (MigrationVersion b + length pre))],
               MigrationVersion b)"
      by (simp del: upt_Suc)
  }
qed

theorem migrations_at_startup_witness:
  "snd (snd (preparePayments (boot_resumed\<lparr>NewLevelDB := Inr True\<rparr>))) = 3 \<and>
   filter is_migration (fst (snd (preparePayments (boot_resumed\<lparr>NewLevelDB := Inr True\<rparr>)))) = [] \<and>
   preparePayments (boot_resumed\<lparr>NewLevelDB := Inr True, SetMigrationVersion := (\<lambda>n. Some (New ''read-only''))\<rparr>) =
     (Some (Fatal ''failed to set initial migration version'' (New ''read-only'')),
      [CallAddConnectionsFromConfig, CallStartClient, CallNewLevelDB, CallSetMigrationVersion 3], 1) \<and>
   filter is_migration (fst (snd (preparePayments boot_resumed))) = [RunMigration 2, RunMigration 3] \<and>
   snd (snd (preparePayments boot_resumed)) = 3 \<and>
   preparePayments (boot_resumed\<lparr>Migrations := [None, None, Some (New ''bad schema'')]\<rparr>) =
     (Some (Fatal ''failed to run migrations'' (New ''bad schema'')),
      [CallAddConnectionsFromConfig, CallStartClient, CallNewLevelDB, CallRunMigrations,
       RunMigration 2, RunMigration 3], 1)"
proof -
  let ?fresh = "boot_resumed\<lparr>NewLevelDB := Inr True\<rparr>"
  let ?ro = "boot_resumed\<lparr>NewLevelDB := Inr True, SetMigrationVersion := (\<lambda>n. Some (New ''read-only''))\<rparr>"
  let ?bad = "boot_resumed\<lparr>Migrations := [None, None, Some (New ''bad schema'')]\<rparr>"
  have up: "[Suc (Suc 0) ..< Suc (Suc (Suc (Suc 0)))] = [2, 3]"
    by (simp add: numeral_2_eq_2 numeral_3_eq_3)
  have a: "snd (snd (preparePayments ?fresh)) = 3 \<and>
           filter is_migration (fst (snd (preparePayments ?fresh))) = []"
    using migrations_at_startup [of ?fresh] by (simp add: boot_resumed_def)
  have b: "preparePayments ?ro =
     (Some (Fatal ''failed to set initial migration version'' (New ''read-only'')),
      [CallAddConnectionsFromConfig, CallStartClient, CallNewLevelDB, CallSetMigrationVersion 3], 1)"
    using migrations_at_startup [of ?ro] by (simp add: boot_resumed_def)
  have c: "filter is_migration (fst (snd (preparePayments boot_resumed))) = [RunMigration 2, RunMigration 3] \<and>
           snd (snd (preparePayments boot_resumed)) = 3"
    using migrations_at_startup [of boot_resumed] by (simp add: boot_resumed_def numeral_2_eq_2 numeral_3_eq_3)
  have h: "AddConnectionsFromConfig ?bad = None" "StartClient ?bad = None"
    by (simp_all add: boot_resumed_def)
  from migrations_at_startup [OF h, THEN conjunct2, THEN conjunct2, THEN conjunct2, rule_format,
      of "[None]" "New ''bad schema''" "[]"]
  have d: "preparePayments ?bad =
     (Some (Fatal ''failed to run migrations'' (New ''bad schema'')),
      [CallAddConnectionsFromConfig, CallStartClient, CallNewLevelDB, CallRunMigrations,
       RunMigration 2, RunMigration 3], 1)"
    by (simp add: boot_resumed_def numeral_2_eq_2 numeral_3_eq_3)
  from a b c d show ?thesis by simp
qed

text \<open>
  Claim C6. Once the store is open and migrated: if reading the persisted cursor fails
  with NotFound, the one scanner that is created starts from sequence number zero and
  is started; if it fails with another error, the startup ends there with a fatal error
  and no scanner is created; if it succeeds, the one scanner that is created starts
  from the persisted sequence number.
\<close>

theorem scan_cursor_at_startup:
  assumes "openStore b = (None, tr, v)"
  shows "(\<forall>err. GetBlockOffset b = Inl err \<and> errors_Is err ErrNotFound \<longrightarrow>
            filter is_scanner_start (fst (snd (preparePayments b))) = [CallNewScanner 0] \<and>
            CallStartSmall \<in> set (fst (snd (preparePayments b)))) \<and>
         (\<forall>err. GetBlockOffset b = Inl err \<and> \<not> errors_Is err ErrNotFound \<longrightarrow>
            preparePayments b =
              (Some (Fatal ''failed to load block offset'' err), tr @ [CallGetBlockOffset], v) \<and>
            filter is_scanner_start (tr @ [CallGetBlockOffset]) = []) \<and>
         (\<forall>s. GetBlockOffset b = Inr s \<longrightarrow>
            filter is_scanner_start (fst (snd (preparePayments b))) = [CallNewScanner s] \<and>
            CallStartSmall \<in> set (fst (snd (preparePayments b))))"
proof -
  have tr: "filter is_scanner_start tr = []"
    using openStore_events [OF assms] by simp
  have started: "filter is_scanner_start (fst (snd (preparePayments b))) = [CallNewScanner s] \<and>
      CallStartSmall \<in> set (fst (snd (preparePayments b)))" if "loadSeqno b = Inr s" for s
  proof -
    have a: "filter is_scanner_start (snd (startScanner b s)) = [CallNewScanner s]"
      by (rule startScanner_events)
    have b: "CallStartSmall \<in> set (snd (startScanner b s))"
      by (simp add: startScanner_def split: option.splits sum.splits)
    have c: "filter is_scanner_start (snd (initService b)) = []"
      by (simp add: initService_events)
    have "fst (snd (preparePayments b)) = tr @ [CallGetBlockOffset] @ snd (startScanner b s) \<or>
          fst (snd (preparePayments b)) = tr @ [CallGetBlockOffset] @ snd (startScanner b s) @ snd (initService b)"
      using assms that by (auto simp: preparePayments_def split: prod.splits option.splits)
    with a b c tr show ?thesis by auto
  qed
  show ?thesis
  proof (intro conjI allI impI)
    fix err
    assume "GetBlockOffset b = Inl err \<and> errors_Is err ErrNotFound"
    then have "loadSeqno b = Inr 0" by (simp add: loadSeqno_def)
    from started [OF this]
    show "filter is_scanner_start (fst (snd (preparePayments b))) = [CallNewScanner 0]"
      and "CallStartSmall \<in> set (fst (snd (preparePayments b)))"
      by simp_all
  next
    fix err
    assume "GetBlockOffset b = Inl err \<and> \<not> errors_Is err ErrNotFound"
    then have "loadSeqno b = Inl (Fatal ''failed to load block offset'' err)"
      by (simp add: loadSeqno_def)
    with assms show "preparePayments b =
        (Some (Fatal ''failed to load block offset'' err), tr @ [CallGetBlockOffset], v)"
      by (simp add: preparePayments_def)
    from tr show "filter is_scanner_start (tr @ [CallGetBlockOffset]) = []" by simp
  next
    fix s
    assume "GetBlockOffset b = Inr s"
    then have "loadSeqno b = Inr s" by (simp add: loadSeqno_def)
    from started [OF this]
    show "filter is_scanner_start (fst (snd (preparePayments b))) = [CallNewScanner s]"
      and "CallStartSmall \<in> set (fst (snd (preparePayments b)))"
      by simp_all
  qed
qed


theorem scan_cursor_at_startup_witness:
  "openStore boot_resumed =
     (None, [CallAddConnectionsFromConfig, CallStartClient, CallNewLevelDB, CallRunMigrations,
             RunMigration 2, RunMigration 3], 3) \<and>
   filter is_scanner_start (fst (snd (preparePayments boot_resumed))) = [CallNewScanner 42] \<and>
   filter is_scanner_start
     (fst (snd (preparePayments (boot_resumed\<lparr>GetBlockOffset := Inl (Wrap ''get offset'' ErrNotFound)\<rparr>))))
     = [CallNewScanner 0] \<and>
   preparePayments (boot_resumed\<lparr>GetBlockOffset := Inl (New ''leveldb: corrupted'')\<rparr>) =
     (Some (Fatal ''failed to load block offset'' (New ''leveldb: corrupted'')),
      [CallAddConnectionsFromConfig, CallStartClient, CallNewLevelDB, CallRunMigrations,
       RunMigration 2, RunMigration 3, CallGetBlockOffset], 3)"
proof -
  let ?tr = "[CallAddConnectionsFromConfig, CallStartClient, CallNewLevelDB, CallRunMigrations,
             RunMigration 2, RunMigration 3]"
  let ?nf = "boot_resumed\<lparr>GetBlockOffset := Inl (Wrap ''get offset'' ErrNotFound)\<rparr>"
  let ?io = "boot_resumed\<lparr>GetBlockOffset := Inl (New ''leveldb: corrupted'')\<rparr>"
  have nf: "openStore ?nf = (None, ?tr, 3)" and io: "openStore ?io = (None, ?tr, 3)"
    by (simp_all add: openStore_def migrate_def RunMigrations_def boot_resumed_def
        numeral_2_eq_2 numeral_3_eq_3)
  from scan_cursor_at_startup [OF boot_resumed_store]
  have a: "filter is_scanner_start (fst (snd (preparePayments boot_resumed))) = [CallNewScanner 42]"
    by (simp add: boot_resumed_def)
  from scan_cursor_at_startup [OF nf]
  have b: "filter is_scanner_start (fst (snd (preparePayments ?nf))) = [CallNewScanner 0]"
    by simp
  from scan_cursor_at_startup [OF io]
  have c: "preparePayments ?io =
     (Some (Fatal ''failed to load block offset'' (New ''leveldb: corrupted'')), ?tr @ [CallGetBlockOffset], 3)"
    by simp
  from boot_resumed_store a b c show ?thesis by simp
qed


section \<open>Properties of the console\<close>

lemma sumBalances_eq:
  "sumBalances calc cap list amount =
     (amount + sum_list (map projr (filter (\<lambda>r. \<not> isl r) (map (\<lambda>c. calc c cap) list))),
      map (ErrorFailedToCalcBalance \<circ> projl) (filter isl (map (\<lambda>c. calc c cap) list)))"
proof (induction list arbitrary: amount)
  case Nil
  then show ?case by simp
next
  case (Cons c list)
  then show ?case
    by (cases "calc c cap") simp_all
qed

text \<open>
  Claim C9. For the commands balance and capacity, with \<open>results\<close> the outcome of the
  balance computation for each listed channel: when the payments are enabled and the
  channels are listed, the turn logs one failure for every channel whose computation
  failed, in order, and then reports the sum over the channels whose computation
  succeeded, and the loop goes on with the next turn; so if exactly one channel among
  several fails, the sum over the others is still reported after the one failure. When
  the payments are not enabled, the turn logs an error and the loop goes on with the
  next turn.
\<close>

theorem balance_degrades_gracefully:
  assumes "Scanned t = Inr val" and "val = ''balance'' \<or> val = ''capacity''"
  shows "(\<forall>list. Listed t = Inr list \<longrightarrow>
            console True (t # rest) =
              InfoInputACommand #
              map (ErrorFailedToCalcBalance \<circ> projl)
                (filter isl (map (\<lambda>c. CalcBalance t c (val = ''capacity'')) list)) @
              [(if val = ''balance'' then InfoSummarizedBalance else InfoCapacityLeft)
                 (sum_list (map projr (filter (\<lambda>r. \<not> isl r) (map (\<lambda>c. CalcBalance t c (val = ''capacity'')) list))))] @
              console True rest) \<and>
         (\<forall>pre c post err. Listed t = Inr (pre @ c # post) \<and>
            CalcBalance t c (val = ''capacity'') = Inl err \<and>
            (\<forall>c'\<in>set (pre @ post). \<not> isl (CalcBalance t c' (val = ''capacity''))) \<longrightarrow>
            console True (t # rest) =
              [InfoInputACommand, ErrorFailedToCalcBalance err,
               (if val = ''balance'' then InfoSummarizedBalance else InfoCapacityLeft)
                 (sum_list (map (\<lambda>c'. projr (CalcBalance t c' (val = ''capacity''))) (pre @ post)))] @
              console True rest) \<and>
         console False (t # rest) = [InfoInputACommand, ErrorPaymentsNotEnabled] @ console False rest"
proof (intro conjI allI impI)
  fix list
  assume "Listed t = Inr list"
  with assms show "console True (t # rest) =
      InfoInputACommand #
      map (ErrorFailedToCalcBalance \<circ> projl)
        (filter isl (map (\<lambda>c. CalcBalance t c (val = ''capacity'')) list)) @
      [(if val = ''balance'' then InfoSummarizedBalance else InfoCapacityLeft)
         (sum_list (map projr (filter (\<lambda>r. \<not> isl r) (map (\<lambda>c. CalcBalance t c (val = ''capacity'')) list))))] @
      console True rest"
    by (auto simp: cmdBalance_def sumBalances_eq)
next
  fix pre c post err
  let ?calc = "\<lambda>c. CalcBalance t c (val = ''capacity'')"
  assume h: "Listed t = Inr (pre @ c # post) \<and> ?calc c = Inl err \<and>
            (\<forall>c'\<in>set (pre @ post). \<not> isl (?calc c'))"
  have ok: "filter isl (map ?calc xs) = [] \<and> filter (\<lambda>r. \<not> isl r) (map ?calc xs) = map ?calc xs"
    if "\<forall>c'\<in>set xs. \<not> isl (?calc c')" for xs
    using that by (induction xs) auto
  from h have "\<forall>c'\<in>set pre. \<not> isl (?calc c')" and "\<forall>c'\<in>set post. \<not> isl (?calc c')"
    by auto
  then have pre: "filter isl (map ?calc pre) = []" "filter (\<lambda>r. \<not> isl r) (map ?calc pre) = map ?calc pre"
    and post: "filter isl (map ?calc post) = []" "filter (\<lambda>r. \<not> isl r) (map ?calc post) = map ?calc post"
    using ok by blast+
  from h have "sumBalances (CalcBalance t) (val = ''capacity'') (pre @ c # post) 0 =
      (sum_list (map (\<lambda>c'. projr (?calc c')) (pre @ post)), [ErrorFailedToCalcBalance err])"
    by (simp add: sumBalances_eq pre post comp_def)
  with assms h show "console True (t # rest) =
      [InfoInputACommand, ErrorFailedToCalcBalance err,
       (if val = ''balance'' then InfoSummarizedBalance else InfoCapacityLeft)
         (sum_list (map (\<lambda>c'. projr (?calc c')) (pre @ post)))] @
      console True rest"
    by (auto simp: cmdBalance_def)
next
  from assms show "console False (t # rest) = [InfoInputACommand, ErrorPaymentsNotEnabled] @ console False rest"
    by (auto simp: cmdBalance_def)
qed


theorem balance_degrades_gracefully_witness:
  "Scanned (turn_of ''balance'') = Inr ''balance'' \<and>
   Listed (turn_of ''balance'') =
     Inr ([chan 1 ''EQa'' 10 True] @ chan 2 ''EQb'' 50 True # [chan 3 ''EQc'' 20 True]) \<and>
   CalcBalance (turn_of ''balance'') (chan 2 ''EQb'' 50 True) False = Inl (New ''no signed state'') \<and>
   console True [turn_of ''balance'', turn_of ''capacity''] =
     [InfoInputACommand, ErrorFailedToCalcBalance (New ''no signed state''), InfoSummarizedBalance 30,
      InfoInputACommand, ErrorFailedToCalcBalance (New ''no signed state''), InfoCapacityLeft 60] \<and>
   console False [turn_of ''balance'', turn_of ''capacity'', turn_of ''stats''] =
     [InfoInputACommand, ErrorPaymentsNotEnabled, InfoInputACommand, ErrorPaymentsNotEnabled,
      InfoInputACommand, OtherCommand ''stats'']"
proof -
  have sb: "Scanned (turn_of ''balance'') = Inr ''balance''"
    and sc: "Scanned (turn_of ''capacity'') = Inr ''capacity''"
    by (simp_all add: turn_of_def)
  have l: "Listed (turn_of v) =
     Inr ([chan 1 ''EQa'' 10 True] @ chan 2 ''EQb'' 50 True # [chan 3 ''EQc'' 20 True])" for v
    by (simp add: turn_of_def)
  have f: "CalcBalance (turn_of v) (chan 2 ''EQb'' 50 True) cap = Inl (New ''no signed state'')" for v cap
    by (simp add: turn_of_def chan_def)
  have g: "CalcBalance (turn_of v) (chan 1 ''EQa'' 10 True) cap = Inr (if cap then 20 else 10)"
    "CalcBalance (turn_of v) (chan 3 ''EQc'' 20 True) cap = Inr (if cap then 40 else 20)" for v cap
    by (simp_all add: turn_of_def chan_def key_def)
  note b = balance_degrades_gracefully [OF sb, THEN conjunct2, THEN conjunct1, rule_format,
      of "[chan 1 ''EQa'' 10 True]" "chan 2 ''EQb'' 50 True" "[chan 3 ''EQc'' 20 True]"
         "New ''no signed state''"]
  note c = balance_degrades_gracefully [OF sc, THEN conjunct2, THEN conjunct1, rule_format,
      of "[chan 1 ''EQa'' 10 True]" "chan 2 ''EQb'' 50 True" "[chan 3 ''EQc'' 20 True]"
         "New ''no signed state''"]
  have c': "console True [turn_of ''capacity''] =
     [InfoInputACommand, ErrorFailedToCalcBalance (New ''no signed state''), InfoCapacityLeft 60]"
    using c [of "[]"] by (simp del: console.simps(2) add: l f g)
  have b': "console True [turn_of ''balance'', turn_of ''capacity''] =
     [InfoInputACommand, ErrorFailedToCalcBalance (New ''no signed state''), InfoSummarizedBalance 30,
      InfoInputACommand, ErrorFailedToCalcBalance (New ''no signed state''), InfoCapacityLeft 60]"
    using b [of "[turn_of ''capacity'']"] by (simp del: console.simps(2) add: l f g c')
  note d = balance_degrades_gracefully [OF sb, THEN conjunct2, THEN conjunct2]
  have d': "console False [turn_of ''balance'', turn_of ''capacity'', turn_of ''stats''] =
     [InfoInputACommand, ErrorPaymentsNotEnabled, InfoInputACommand, ErrorPaymentsNotEnabled,
      InfoInputACommand, OtherCommand ''stats'']"
    using d [of "[turn_of ''capacity'', turn_of ''stats'']"]
    by (simp add: turn_of_def cmdBalance_def)
  from sb l f b' d' show ?thesis by simp
qed


section \<open>Properties of the console command speed\<close>









end
